theory Spec2Isabelle
  imports Main
begin

section \<open>The dashboard host list controller\<close>

text \<open>
  A shallow embedding of \<^verbatim>\<open>dashboard-hosts-list.controller.js\<close>. The controller keeps a
  page of host objects on its scope, derives two display fields per host after every
  refresh, patches one host after a successful enable/disable request and tracks which
  row is being edited from router events.

  JavaScript objects are references: the scope's \<^verbatim>\<open>hosts\<close> array holds references to
  host objects and the handlers mutate those objects in place. The model therefore has
  a store from references to host objects, and the array is a list of references.
  A scope property is an \<open>option\<close>: \<open>None\<close> is what reads as \<^verbatim>\<open>undefined\<close>, whether the
  property is missing, was deleted or was assigned \<^verbatim>\<open>undefined\<close>.
  An exception raised inside a handler is a value returned next to the state the handler
  left behind.
\<close>

subsection \<open>Data\<close>

type_synonym ref = nat

datatype error = TypeError

text \<open>\<^verbatim>\<open>summary_fields.inventory\<close> of a host: \<^verbatim>\<open>{name, id}\<close>.\<close>

record inventory_summary =
  inv_name :: string
  inv_id :: int

record summary =
  inventory :: "inventory_summary option"

text \<open>
  A host object. \<open>host_id\<close> is the property \<^verbatim>\<open>id\<close>. \<open>job_status\<close> stands for whatever
  the status resolver \<^verbatim>\<open>SetStatus\<close> attaches; every further property of the object lives in
  the extension part of the record.
\<close>

record 's host =
  host_id :: int
  enabled :: bool
  summary_fields :: "summary option"
  inventory_name :: "string option"
  inventory_id :: "int option"
  job_status :: "'s option"

text \<open>The list descriptor \<^verbatim>\<open>DashboardHostsList\<close>; only its \<^verbatim>\<open>iterator\<close> is read.\<close>

record descriptor =
  iterator :: string

text \<open>The pre-fetched first page \<^verbatim>\<open>hosts\<close>: \<^verbatim>\<open>{results, count, next, previous}\<close>.\<close>

record page =
  results :: "ref list"
  count :: int
  next_link :: "string option"
  previous_link :: "string option"

text \<open>The body of a successful response of the host service: \<^verbatim>\<open>res.data\<close>.\<close>

record res_data =
  data_id :: int
  data_enabled :: bool

text \<open>
  Calls the controller makes on its collaborators, none of which is part of the
  controller's source. Each call is recorded with the arguments the controller passes.
  The last five are handed \<^verbatim>\<open>$scope\<close> itself.
\<close>

datatype call =
    State_go string int
  | SetHostStatus ref bool
  | Generator_inject descriptor string
  | SearchInit string descriptor string
  | PaginateInit descriptor string int
  | PageRangeSetup int "string option" "string option" string
  | Scope_search string

text \<open>
  The state: the object store, the properties the controller writes on \<^verbatim>\<open>$scope\<close>,
  whether the \<^verbatim>\<open>$stateChangeSuccess\<close> listener is still registered on \<^verbatim>\<open>$rootScope\<close>, and
  the calls made so far. Properties of the scope that the pagination and search
  collaborators own are in the extension part of the record.
\<close>

record ('s, 'a) state =
  heap :: "ref \<Rightarrow> ('s, 'a) host_scheme"
  hostPageSize :: "int option"
  scope_list :: "descriptor option"
  host_active_search :: "bool option"
  host_total_rows :: "int option"
  hosts :: "ref list option"
  hostLoading :: "bool option"
  rowBeingEdited :: "int option"
  listBeingEdited :: "string option"
  stateChangeListener :: bool
  calls :: "call list"

text \<open>
  Modelled from the spec: the list renderer, the search binder and the pager
  (\<^verbatim>\<open>generator.inject\<close>, \<^verbatim>\<open>SearchInit\<close>, \<^verbatim>\<open>PaginateInit\<close>, \<^verbatim>\<open>PageRangeSetup\<close> and the
  \<^verbatim>\<open>search\<close> function they put on the scope) are not part of the controller's source.
  They are handed the live scope, and the spec lets them read and write its pagination
  and search properties directly, the pager owning the total row count, while the
  snapshot is the controller's alone and the edit marker is written on navigation only.
  A collaborator is therefore any function that, from the call and the scope it is
  handed, says what it leaves in those properties and in the properties of its own.
\<close>

record 'b shared =
  total_rows :: "int option"
  page_size :: "int option"
  active_search :: "bool option"
  loading :: "bool option"
  owned :: 'b

text \<open>
  What is injected into the controller and read by it. \<^verbatim>\<open>$state.params.id\<close> is
  \<open>None\<close> when the router's current parameters have no \<^verbatim>\<open>id\<close>.
\<close>

record ('s, 'a, 'b) injected =
  SetStatus :: "('s, 'a) host_scheme \<Rightarrow> 's"
  DashboardHostsList :: descriptor
  defaultUrl :: string
  hosts_page :: page
  state_current_name :: string
  state_params_id :: "int option"
  collaborators :: "call \<Rightarrow> ('s, 'a, 'b) state_scheme \<Rightarrow> 'b shared"

subsection \<open>Library functions the controller calls\<close>

text \<open>
  lodash treats a missing collection as empty: \<^verbatim>\<open>_.map(undefined, f)\<close> is \<^verbatim>\<open>[]\<close>,
  \<^verbatim>\<open>_.forEach(undefined, f)\<close> does nothing and \<^verbatim>\<open>_.findIndex(undefined, p)\<close> is \<^verbatim>\<open>-1\<close>.
\<close>

definition collection :: "'x list option \<Rightarrow> 'x list" where
  "collection c = (case c of None \<Rightarrow> [] | Some xs \<Rightarrow> xs)"

text \<open>\<^verbatim>\<open>_.findIndex\<close>: the index of the first element satisfying the predicate, else \<^verbatim>\<open>-1\<close>.\<close>

fun findIndex_from :: "('x \<Rightarrow> bool) \<Rightarrow> 'x list \<Rightarrow> int \<Rightarrow> int" where
  "findIndex_from p [] i = - 1"
| "findIndex_from p (x # xs) i = (if p x then i else findIndex_from p xs (i + 1))"

definition findIndex :: "'x list option \<Rightarrow> ('x \<Rightarrow> bool) \<Rightarrow> int" where
  "findIndex c p = findIndex_from p (collection c) 0"

text \<open>
  \<^verbatim>\<open>array[index]\<close>: \<^verbatim>\<open>undefined\<close> outside the array's range (in particular at \<^verbatim>\<open>-1\<close>);
  reading an index of \<^verbatim>\<open>undefined\<close> raises.
\<close>

definition at_index :: "'x list option \<Rightarrow> int \<Rightarrow> error + 'x option" where
  "at_index c i =
     (case c of
        None \<Rightarrow> Inl TypeError
      | Some xs \<Rightarrow> Inr (if 0 \<le> i \<and> i < int (length xs) then Some (xs ! nat i) else None))"

subsection \<open>Status derivation\<close>

text \<open>
  Modelled from the spec: \<^verbatim>\<open>SetStatus\<close> is not part of the controller's source. The spec
  describes it as attaching job-status display metadata to the item it is given; here it
  stores what the injected resolver computes from the host in \<open>job_status\<close> and writes
  nothing else.
\<close>

definition apply_SetStatus ::
  "(('s, 'a) host_scheme \<Rightarrow> 's) \<Rightarrow> ('s, 'a) host_scheme \<Rightarrow> ('s, 'a) host_scheme" where
  "apply_SetStatus f v = v\<lparr>job_status := Some (f v)\<rparr>"

fun forEach_SetStatus ::
  "(('s, 'a) host_scheme \<Rightarrow> 's) \<Rightarrow> ref list \<Rightarrow> (ref \<Rightarrow> ('s, 'a) host_scheme)
     \<Rightarrow> (ref \<Rightarrow> ('s, 'a) host_scheme)" where
  "forEach_SetStatus f [] h = h"
| "forEach_SetStatus f (r # rs) h = forEach_SetStatus f rs (h(r := apply_SetStatus f (h r)))"

definition setJobStatus ::
  "(('s, 'a) host_scheme \<Rightarrow> 's) \<Rightarrow> ('s, 'a, 'b) state_scheme \<Rightarrow> ('s, 'a, 'b) state_scheme" where
  "setJobStatus f s = s\<lparr>heap := forEach_SetStatus f (collection (hosts s)) (heap s)\<rparr>"

subsection \<open>The operations on the scope\<close>

definition editHost :: "int \<Rightarrow> ('s, 'a, 'b) state_scheme \<Rightarrow> ('s, 'a, 'b) state_scheme" where
  "editHost i s = s\<lparr>calls := calls s @ [State_go ''dashboardHosts.edit'' i]\<rparr>"

text \<open>
  \<^verbatim>\<open>toggleHostEnabled(host)\<close> up to the point where the request is sent: the service is
  asked for the negation of the host's current flag.
\<close>

definition toggleHostEnabled :: "ref \<Rightarrow> ('s, 'a, 'b) state_scheme \<Rightarrow> ('s, 'a, 'b) state_scheme" where
  "toggleHostEnabled r s = s\<lparr>calls := calls s @ [SetHostStatus r (\<not> enabled (heap s r))]\<rparr>"

text \<open>
  The success callback of the request. \<^verbatim>\<open>$scope.hosts[index]\<close> is \<^verbatim>\<open>undefined\<close> when
  \<^verbatim>\<open>findIndex\<close> returned \<^verbatim>\<open>-1\<close>, and assigning a property of \<^verbatim>\<open>undefined\<close> raises.
\<close>

definition toggleHostEnabled_then ::
  "res_data \<Rightarrow> ('s, 'a, 'b) state_scheme \<Rightarrow> ('s, 'a, 'b) state_scheme \<times> error option" where
  "toggleHostEnabled_then d s =
     (let index = findIndex (hosts s) (\<lambda>x. host_id (heap s x) = data_id d)
      in case at_index (hosts s) index of
           Inl e \<Rightarrow> (s, Some e)
         | Inr None \<Rightarrow> (s, Some TypeError)
         | Inr (Some r) \<Rightarrow>
             (s\<lparr>heap := (heap s)(r := (heap s r)\<lparr>enabled := data_enabled d\<rparr>)\<rparr>, None))"

text \<open>
  Modelled from the spec: \<^verbatim>\<open>DashboardHostService.setHostStatus\<close> is not part of the
  controller's source. The spec describes it as requesting the change on the server and
  returning a promise that resolves with the canonical record or rejects; it appears here
  as the recorded call and the outcome of its promise. The controller attaches a success
  callback only, so a rejection runs no code of the controller.
\<close>

datatype outcome = Resolved res_data | Rejected

fun settle ::
  "outcome \<Rightarrow> ('s, 'a, 'b) state_scheme \<Rightarrow> ('s, 'a, 'b) state_scheme \<times> error option" where
  "settle (Resolved d) s = toggleHostEnabled_then d s"
| "settle Rejected s = (s, None)"

subsection \<open>The handlers\<close>

text \<open>
  The function mapped over the hosts by the \<^verbatim>\<open>PostRefresh\<close> handler. Reading
  \<^verbatim>\<open>value.summary_fields.inventory.name\<close> raises when \<^verbatim>\<open>summary_fields\<close> or its
  \<^verbatim>\<open>inventory\<close> is missing, before anything is written.
\<close>

definition summary_inventory :: "('s, 'a) host_scheme \<Rightarrow> inventory_summary option" where
  "summary_inventory v = (case summary_fields v of None \<Rightarrow> None | Some f \<Rightarrow> inventory f)"

definition derive :: "('s, 'a) host_scheme \<Rightarrow> error + ('s, 'a) host_scheme" where
  "derive v =
     (case summary_inventory v of
        None \<Rightarrow> Inl TypeError
      | Some i \<Rightarrow> Inr (v\<lparr>inventory_name := Some (inv_name i), inventory_id := Some (inv_id i)\<rparr>))"

text \<open>
  \<^verbatim>\<open>_.map\<close> with that function: the objects are updated in place, one after the other,
  and the new array holds the same references. An exception leaves the objects visited
  so far updated.
\<close>

fun map_derive ::
  "ref list \<Rightarrow> (ref \<Rightarrow> ('s, 'a) host_scheme) \<Rightarrow> (ref \<Rightarrow> ('s, 'a) host_scheme) \<times> error option" where
  "map_derive [] h = (h, None)"
| "map_derive (r # rs) h =
     (case derive (h r) of
        Inl e \<Rightarrow> (h, Some e)
      | Inr v \<Rightarrow> map_derive rs (h(r := v)))"

definition PostRefresh ::
  "(('s, 'a) host_scheme \<Rightarrow> 's) \<Rightarrow> ('s, 'a, 'b) state_scheme
     \<Rightarrow> ('s, 'a, 'b) state_scheme \<times> error option" where
  "PostRefresh f s =
     (case map_derive (collection (hosts s)) (heap s) of
        (h, Some e) \<Rightarrow> (s\<lparr>heap := h\<rparr>, Some e)
      | (h, None) \<Rightarrow>
          (setJobStatus f (s\<lparr>heap := h, hosts := Some (collection (hosts s))\<rparr>), None))"

text \<open>
  The \<^verbatim>\<open>$stateChangeSuccess\<close> listener, given \<^verbatim>\<open>toState.name\<close> and \<^verbatim>\<open>toParams.id\<close>. The id
  is copied as it comes: it is \<open>None\<close> when the destination's parameters have no
  \<^verbatim>\<open>id\<close>.
\<close>

definition stateChangeSuccess ::
  "string \<Rightarrow> int option \<Rightarrow> ('s, 'a, 'b) state_scheme \<Rightarrow> ('s, 'a, 'b) state_scheme" where
  "stateChangeSuccess toState_name toParams_id s =
     (if toState_name = ''dashboardHosts.edit''
      then s\<lparr>rowBeingEdited := toParams_id, listBeingEdited := Some ''hosts''\<rparr>
      else s\<lparr>rowBeingEdited := None, listBeingEdited := None\<rparr>)"

text \<open>The \<^verbatim>\<open>$destroy\<close> handler calls the deregistration function of the listener.\<close>

definition destroy :: "('s, 'a, 'b) state_scheme \<Rightarrow> ('s, 'a, 'b) state_scheme" where
  "destroy s = s\<lparr>stateChangeListener := False\<rparr>"

subsection \<open>Construction\<close>

text \<open>
  A call that hands the scope to a collaborator: the call is recorded and the
  collaborator's writes to the pagination and search properties take effect.
\<close>

definition handed ::
  "(call \<Rightarrow> ('s, 'a, 'b) state_scheme \<Rightarrow> 'b shared) \<Rightarrow> call \<Rightarrow> ('s, 'a, 'b) state_scheme
     \<Rightarrow> ('s, 'a, 'b) state_scheme" where
  "handed c k s =
     (let w = c k s
      in state.more_update (\<lambda>_. owned w)
           (s\<lparr>host_total_rows := total_rows w, hostPageSize := page_size w,
              host_active_search := active_search w, hostLoading := loading w,
              calls := calls s @ [k]\<rparr>))"

text \<open>
  The first statements of \<^verbatim>\<open>init\<close>, up to and including \<^verbatim>\<open>setJobStatus()\<close>: the
  controller's own assignments, made before the scope is handed to anyone.
\<close>

definition init_assigned ::
  "('s, 'a, 'b) injected \<Rightarrow> ('s, 'a, 'b) state_scheme \<Rightarrow> ('s, 'a, 'b) state_scheme" where
  "init_assigned d s0 =
     (let s1 = s0\<lparr>scope_list := Some (DashboardHostsList d)\<rparr>;
          s2 = s1\<lparr>host_active_search := Some False\<rparr>;
          s3 = s2\<lparr>host_total_rows := Some (int (length (results (hosts_page d))))\<rparr>;
          s4 = s3\<lparr>hosts := Some (results (hosts_page d))\<rparr>
      in setJobStatus (SetStatus d) s4)"

definition init ::
  "('s, 'a, 'b) injected \<Rightarrow> ('s, 'a, 'b) state_scheme \<Rightarrow> ('s, 'a, 'b) state_scheme" where
  "init d s0 =
     (let list = DashboardHostsList d;
          c = collaborators d;
          s5 = init_assigned d s0;
          s6 = handed c (Generator_inject list ''edit'') s5;
          s7 = handed c (SearchInit ''hosts'' list (defaultUrl d)) s6;
          s8 = handed c (PaginateInit list (defaultUrl d) 10) s7;
          s9 = handed c (PageRangeSetup (count (hosts_page d)) (next_link (hosts_page d))
                 (previous_link (hosts_page d)) (iterator list)) s8;
          s10 = s9\<lparr>hostLoading := Some False\<rparr>;
          s11 = (if state_current_name d = ''dashboardHosts.edit''
                 then s10\<lparr>rowBeingEdited := state_params_id d,
                          listBeingEdited := Some ''hosts''\<rparr>
                 else s10)
      in handed c (Scope_search (iterator list)) s11)"

text \<open>A new scope over a given store: no property set yet, nothing registered.\<close>

definition new_scope :: "(ref \<Rightarrow> ('s, 'a) host_scheme) \<Rightarrow> 'b \<Rightarrow> ('s, 'a, 'b) state_scheme" where
  "new_scope h m =
     \<lparr>heap = h, hostPageSize = None, scope_list = None, host_active_search = None,
      host_total_rows = None, hosts = None, hostLoading = None, rowBeingEdited = None,
      listBeingEdited = None, stateChangeListener = False, calls = [], \<dots> = m\<rparr>"

text \<open>
  The controller function before it calls \<^verbatim>\<open>init\<close>: it sets the page size and registers
  the listener on the root scope.
\<close>

definition before_init :: "(ref \<Rightarrow> ('s, 'a) host_scheme) \<Rightarrow> 'b \<Rightarrow> ('s, 'a, 'b) state_scheme" where
  "before_init h m = (new_scope h m)\<lparr>hostPageSize := Some 10, stateChangeListener := True\<rparr>"

definition controller ::
  "('s, 'a, 'b) injected \<Rightarrow> (ref \<Rightarrow> ('s, 'a) host_scheme) \<Rightarrow> 'b \<Rightarrow> ('s, 'a, 'b) state_scheme" where
  "controller d h m = init d (before_init h m)"

subsection \<open>Events\<close>

text \<open>
  After construction the controller only reacts: to calls of the two scope functions
  from the view, to the settlement of a request, to \<^verbatim>\<open>PostRefresh\<close>, to
  \<^verbatim>\<open>$stateChangeSuccess\<close> on the root scope, which reaches the listener only while it is
  registered, and to \<^verbatim>\<open>$destroy\<close>.
\<close>

datatype event =
    EditHost int
  | ToggleHostEnabled ref
  | Settled outcome
  | PostRefreshed
  | StateChangeSuccess string "int option"
  | Destroy

fun dispatch ::
  "(('s, 'a) host_scheme \<Rightarrow> 's) \<Rightarrow> ('s, 'a, 'b) state_scheme \<Rightarrow> event
     \<Rightarrow> ('s, 'a, 'b) state_scheme \<times> error option" where
  "dispatch f s (EditHost i) = (editHost i s, None)"
| "dispatch f s (ToggleHostEnabled r) = (toggleHostEnabled r s, None)"
| "dispatch f s (Settled out) = settle out s"
| "dispatch f s PostRefreshed = PostRefresh f s"
| "dispatch f s (StateChangeSuccess n i) =
     (if stateChangeListener s then (stateChangeSuccess n i s, None) else (s, None))"
| "dispatch f s Destroy = (destroy s, None)"

text \<open>An exception ends the handler that raised it; the next event finds the state it left.\<close>

fun run ::
  "(('s, 'a) host_scheme \<Rightarrow> 's) \<Rightarrow> ('s, 'a, 'b) state_scheme \<Rightarrow> event list
     \<Rightarrow> ('s, 'a, 'b) state_scheme" where
  "run f s [] = s"
| "run f s (e # es) = run f (fst (dispatch f s e)) es"

subsection \<open>The edit marker\<close>

datatype edit_tracking = NoneEditing | Editing string int | PartlySet

definition edit_tracking :: "('s, 'a, 'b) state_scheme \<Rightarrow> edit_tracking" where
  "edit_tracking s =
     (case (listBeingEdited s, rowBeingEdited s) of
        (None, None) \<Rightarrow> NoneEditing
      | (Some l, Some i) \<Rightarrow> Editing l i
      | _ \<Rightarrow> PartlySet)"

text \<open>The number of items of the snapshot whose \<^verbatim>\<open>enabled\<close> flag is \<open>v\<close>.\<close>

definition count_enabled :: "bool \<Rightarrow> ('s, 'a, 'b) state_scheme \<Rightarrow> nat" where
  "count_enabled v s = length (filter (\<lambda>r. enabled (heap s r) = v) (collection (hosts s)))"

text \<open>
  The marker is well formed when row and list are both missing, or both present with
  the list being \<^verbatim>\<open>hosts\<close>.
\<close>

definition marker_ok :: "('s, 'a, 'b) state_scheme \<Rightarrow> bool" where
  "marker_ok s =
     (case (rowBeingEdited s, listBeingEdited s) of
        (None, None) \<Rightarrow> True
      | (Some i, Some l) \<Rightarrow> l = ''hosts''
      | _ \<Rightarrow> False)"

text \<open>
  Navigation into the edit state that brings a row id: the condition on the router's
  current state at construction, and on an event.
\<close>

definition starts_with_id :: "('s, 'a, 'b) injected \<Rightarrow> bool" where
  "starts_with_id d = (state_current_name d \<noteq> ''dashboardHosts.edit'' \<or> state_params_id d \<noteq> None)"

fun carries_id :: "event \<Rightarrow> bool" where
  "carries_id (StateChangeSuccess n p) = (n \<noteq> ''dashboardHosts.edit'' \<or> p \<noteq> None)"
| "carries_id e = True"

subsection \<open>A sample scope\<close>

text \<open>
  Two hosts, the first enabled and the second disabled, loaded as a first page of two
  results out of three while the router is on the list itself. The sample collaborators
  leave the scope as they find it, except that \<^verbatim>\<open>PageRangeSetup\<close> stores the count it
  is given as the total row count.
\<close>

definition host_one :: "string host" where
  "host_one =
     \<lparr>host_id = 1, enabled = True,
      summary_fields = Some \<lparr>inventory = Some \<lparr>inv_name = ''Prod'', inv_id = 9\<rparr>\<rparr>,
      inventory_name = None, inventory_id = None, job_status = None\<rparr>"

definition host_two :: "string host" where
  "host_two =
     \<lparr>host_id = 2, enabled = False,
      summary_fields = Some \<lparr>inventory = Some \<lparr>inv_name = ''Lab'', inv_id = 4\<rparr>\<rparr>,
      inventory_name = None, inventory_id = None, job_status = None\<rparr>"

definition demo_heap :: "ref \<Rightarrow> string host" where
  "demo_heap = (\<lambda>r. host_one)(1 := host_two)"

definition demo_resolver :: "string host \<Rightarrow> string" where
  "demo_resolver v = (if enabled v then ''on'' else ''off'')"

definition untouched :: "('s, 'a, 'b) state_scheme \<Rightarrow> 'b shared" where
  "untouched s =
     \<lparr>total_rows = host_total_rows s, page_size = hostPageSize s,
      active_search = host_active_search s, loading = hostLoading s, owned = state.more s\<rparr>"

fun demo_pager :: "call \<Rightarrow> (string, unit) state \<Rightarrow> unit shared" where
  "demo_pager (PageRangeSetup n nx pv it) s = (untouched s)\<lparr>total_rows := Some n\<rparr>"
| "demo_pager k s = untouched s"

definition demo_injected :: "(string, unit, unit) injected" where
  "demo_injected =
     \<lparr>SetStatus = demo_resolver,
      DashboardHostsList = \<lparr>iterator = ''host''\<rparr>,
      defaultUrl = ''/api/v1/hosts/'',
      hosts_page = \<lparr>results = [0, 1], count = 3,
                    next_link = Some ''/api/v1/hosts/?page=2'', previous_link = None\<rparr>,
      state_current_name = ''dashboardHosts'',
      state_params_id = None,
      collaborators = demo_pager\<rparr>"

definition demo_scope :: "(string, unit) state" where
  "demo_scope = controller demo_injected demo_heap ()"

text \<open>
  The same scope after a refresh has put another page in place, one that holds the
  second host only.
\<close>

definition stale_scope :: "(string, unit) state" where
  "stale_scope = demo_scope\<lparr>hosts := Some [1]\<rparr>"

text \<open>The same injection when the page is entered directly on the edit state, without an id.\<close>

definition deep_link_injected :: "(string, unit, unit) injected" where
  "deep_link_injected = demo_injected\<lparr>state_current_name := ''dashboardHosts.edit''\<rparr>"

section \<open>Auxiliary facts\<close>

subsection \<open>Searching the snapshot\<close>

lemma findIndex_from_none:
  "\<forall>x\<in>set xs. \<not> p x \<Longrightarrow> findIndex_from p xs i = - 1"
  by (induction xs arbitrary: i) auto

lemma findIndex_from_first:
  "y \<in> set xs \<Longrightarrow> p y \<Longrightarrow>
     findIndex_from p xs i = i + int (length (takeWhile (\<lambda>x. \<not> p x) xs))"
proof (induction xs arbitrary: i)
  case Nil
  then show ?case by simp
next
  case (Cons a xs)
  show ?case
  proof (cases "p a")
    case True
    then show ?thesis by simp
  next
    case False
    with Cons.prems have "y \<in> set xs" by auto
    from Cons.IH [OF this Cons.prems(2), of "i + 1"] False show ?thesis by simp
  qed
qed

lemma first_match_in_range:
  "\<exists>x\<in>set xs. p x \<Longrightarrow> length (takeWhile (\<lambda>x. \<not> p x) xs) < length xs"
  by (induction xs) auto

lemma first_match_holds:
  "\<exists>x\<in>set xs. p x \<Longrightarrow> p (xs ! length (takeWhile (\<lambda>x. \<not> p x) xs))"
  by (induction xs) auto

lemma first_match_unique:
  assumes "distinct (map g xs)" and "r \<in> set xs"
  shows "xs ! length (takeWhile (\<lambda>x. g x \<noteq> g r) xs) = r"
proof -
  let ?n = "length (takeWhile (\<lambda>x. g x \<noteq> g r) xs)"
  have ex: "\<exists>x\<in>set xs. g x = g r" using assms(2) by blast
  have "?n < length xs" using first_match_in_range [of xs "\<lambda>x. g x = g r"] ex by simp
  moreover have "g (xs ! ?n) = g r" using first_match_holds [of xs "\<lambda>x. g x = g r"] ex by simp
  moreover have "inj_on g (set xs)" using assms(1) by (simp add: distinct_map)
  ultimately show ?thesis using assms(2) by (meson inj_onD nth_mem)
qed

text \<open>An id that no item of the snapshot carries always ends the callback in a \<^verbatim>\<open>TypeError\<close>.\<close>

lemma toggle_then_unknown_id:
  assumes "\<forall>r\<in>set (collection (hosts s)). host_id (heap s r) \<noteq> data_id d"
  shows "toggleHostEnabled_then d s = (s, Some TypeError)"
proof -
  have "findIndex (hosts s) (\<lambda>x. host_id (heap s x) = data_id d) = - 1"
    unfolding findIndex_def using assms by (intro findIndex_from_none) simp
  then show ?thesis
    by (cases "hosts s") (simp_all add: toggleHostEnabled_then_def at_index_def)
qed

lemma toggle_then_found:
  assumes "hosts s = Some rs" and "r \<in> set rs"
    and "distinct (map (\<lambda>x. host_id (heap s x)) rs)"
    and "data_id d = host_id (heap s r)"
  shows "toggleHostEnabled_then d s =
           (s\<lparr>heap := (heap s)(r := (heap s r)\<lparr>enabled := data_enabled d\<rparr>)\<rparr>, None)"
proof -
  let ?p = "\<lambda>x. host_id (heap s x) = host_id (heap s r)"
  let ?n = "length (takeWhile (\<lambda>x. \<not> ?p x) rs)"
  have idx: "findIndex (hosts s) (\<lambda>x. host_id (heap s x) = data_id d) = int ?n"
    using assms(1,2,4) findIndex_from_first [of r rs ?p 0]
    by (simp add: findIndex_def collection_def)
  have less: "?n < length rs"
    using first_match_in_range [of rs ?p] assms(2) by blast
  have at: "rs ! ?n = r"
    using first_match_unique [OF assms(3,2)] by simp
  show ?thesis
    using assms(1) idx less at by (simp add: toggleHostEnabled_then_def at_index_def)
qed

subsection \<open>The two loops over the snapshot\<close>

lemma forEach_SetStatus_outside:
  "r \<notin> set rs \<Longrightarrow> forEach_SetStatus f rs h r = h r"
  by (induction rs arbitrary: h) auto

lemma forEach_SetStatus_writes:
  "\<exists>j. forEach_SetStatus f rs h r = (h r)\<lparr>job_status := j\<rparr>"
proof (induction rs arbitrary: h)
  case Nil
  show ?case by (rule exI [of _ "job_status (h r)"]) simp
next
  case (Cons a rs)
  obtain j where j: "forEach_SetStatus f rs (h(a := apply_SetStatus f (h a))) r =
      ((h(a := apply_SetStatus f (h a))) r)\<lparr>job_status := j\<rparr>"
    using Cons.IH by blast
  show ?case
  proof (cases "r = a")
    case True
    with j have "forEach_SetStatus f (a # rs) h r = (h r)\<lparr>job_status := j\<rparr>"
      by (simp add: apply_SetStatus_def)
    then show ?thesis by blast
  next
    case False
    with j have "forEach_SetStatus f (a # rs) h r = (h r)\<lparr>job_status := j\<rparr>"
      by simp
    then show ?thesis by blast
  qed
qed

lemma forEach_SetStatus_keeps:
  "summary_inventory (forEach_SetStatus f rs h r) = summary_inventory (h r)"
  "inventory_name (forEach_SetStatus f rs h r) = inventory_name (h r)"
  "inventory_id (forEach_SetStatus f rs h r) = inventory_id (h r)"
proof -
  obtain j where "forEach_SetStatus f rs h r = (h r)\<lparr>job_status := j\<rparr>"
    using forEach_SetStatus_writes by blast
  then show "summary_inventory (forEach_SetStatus f rs h r) = summary_inventory (h r)"
    "inventory_name (forEach_SetStatus f rs h r) = inventory_name (h r)"
    "inventory_id (forEach_SetStatus f rs h r) = inventory_id (h r)"
    by (simp_all add: summary_inventory_def)
qed

lemma map_derive_outside:
  "r \<notin> set rs \<Longrightarrow> fst (map_derive rs h) r = h r"
  by (induction rs arbitrary: h) (auto simp: derive_def split: option.splits)

lemma map_derive_writes:
  "\<exists>n i. fst (map_derive rs h) r = (h r)\<lparr>inventory_name := n, inventory_id := i\<rparr>"
proof (induction rs arbitrary: h)
  case Nil
  show ?case
    by (rule exI [of _ "inventory_name (h r)"], rule exI [of _ "inventory_id (h r)"]) simp
next
  case (Cons a rs)
  show ?case
  proof (cases "derive (h a)")
    case (Inl e)
    with Inl show ?thesis
      by (intro exI [of _ "inventory_name (h r)"] exI [of _ "inventory_id (h r)"]) simp
  next
    case (Inr v)
    then obtain n0 i0 where v: "v = (h a)\<lparr>inventory_name := n0, inventory_id := i0\<rparr>"
      by (auto simp: derive_def split: option.splits)
    obtain n i where ni: "fst (map_derive rs (h(a := v))) r =
        ((h(a := v)) r)\<lparr>inventory_name := n, inventory_id := i\<rparr>"
      using Cons.IH by blast
    have "fst (map_derive (a # rs) h) r = (h r)\<lparr>inventory_name := n, inventory_id := i\<rparr>"
      using Inr ni v by (cases "r = a") simp_all
    then show ?thesis by blast
  qed
qed

lemma map_derive_summary:
  "summary_inventory (fst (map_derive rs h) r) = summary_inventory (h r)"
proof -
  obtain n i where "fst (map_derive rs h) r = (h r)\<lparr>inventory_name := n, inventory_id := i\<rparr>"
    using map_derive_writes by blast
  then show ?thesis by (simp add: summary_inventory_def)
qed

lemma map_derive_completes:
  "\<forall>r\<in>set rs. summary_inventory (h r) \<noteq> None \<Longrightarrow> snd (map_derive rs h) = None"
proof (induction rs arbitrary: h)
  case Nil
  show ?case by simp
next
  case (Cons a rs)
  from Cons.prems obtain i where i: "summary_inventory (h a) = Some i" by auto
  let ?v = "(h a)\<lparr>inventory_name := Some (inv_name i), inventory_id := Some (inv_id i)\<rparr>"
  have "\<forall>r\<in>set rs. summary_inventory ((h(a := ?v)) r) \<noteq> None"
    using Cons.prems by (simp add: summary_inventory_def)
  then have "snd (map_derive rs (h(a := ?v))) = None" by (rule Cons.IH)
  with i show ?case by (simp add: derive_def)
qed

lemma map_derive_derives:
  "\<forall>r\<in>set rs. summary_inventory (h r) \<noteq> None \<Longrightarrow> r \<in> set rs \<Longrightarrow>
     inventory_name (fst (map_derive rs h) r) = map_option inv_name (summary_inventory (h r)) \<and>
     inventory_id (fst (map_derive rs h) r) = map_option inv_id (summary_inventory (h r))"
proof (induction rs arbitrary: h)
  case Nil
  then show ?case by simp
next
  case (Cons a rs)
  from Cons.prems(1) obtain i where i: "summary_inventory (h a) = Some i" by auto
  let ?v = "(h a)\<lparr>inventory_name := Some (inv_name i), inventory_id := Some (inv_id i)\<rparr>"
  let ?h = "h(a := ?v)"
  have step: "map_derive (a # rs) h = map_derive rs ?h"
    using i by (simp add: derive_def)
  have all: "\<forall>x\<in>set rs. summary_inventory (?h x) \<noteq> None"
    using Cons.prems(1) by (simp add: summary_inventory_def)
  have same: "summary_inventory (?h r) = summary_inventory (h r)"
    by (simp add: summary_inventory_def)
  show ?case
  proof (cases "r \<in> set rs")
    case True
    have "inventory_name (fst (map_derive rs ?h) r) = map_option inv_name (summary_inventory (?h r)) \<and>
          inventory_id (fst (map_derive rs ?h) r) = map_option inv_id (summary_inventory (?h r))"
      using all True by (rule Cons.IH)
    then show ?thesis unfolding step same .
  next
    case False
    with Cons.prems(2) have ra: "r = a" by simp
    have "fst (map_derive rs ?h) r = ?h r"
      using False by (rule map_derive_outside)
    with step ra i show ?thesis by simp
  qed
qed

subsection \<open>The refresh handler\<close>

lemma PostRefresh_completes:
  assumes "\<forall>r\<in>set (collection (hosts s)). summary_inventory (heap s r) \<noteq> None"
  shows "PostRefresh f s =
           (s\<lparr>heap := forEach_SetStatus f (collection (hosts s))
                        (fst (map_derive (collection (hosts s)) (heap s))),
               hosts := Some (collection (hosts s))\<rparr>, None)"
proof -
  obtain h e where he: "map_derive (collection (hosts s)) (heap s) = (h, e)"
    by (cases "map_derive (collection (hosts s)) (heap s)")
  with map_derive_completes [OF assms] have "e = None" by simp
  with he show ?thesis
    by (simp add: PostRefresh_def setJobStatus_def collection_def)
qed

lemma PostRefresh_writes:
  "\<exists>n i j. heap (fst (PostRefresh f s)) r =
     (heap s r)\<lparr>inventory_name := n, inventory_id := i, job_status := j\<rparr>"
proof -
  let ?rs = "collection (hosts s)"
  obtain h e where he: "map_derive ?rs (heap s) = (h, e)"
    by (cases "map_derive ?rs (heap s)")
  obtain n i where ni: "h r = (heap s r)\<lparr>inventory_name := n, inventory_id := i\<rparr>"
    using map_derive_writes [of ?rs "heap s" r] he by auto
  show ?thesis
  proof (cases e)
    case (Some err)
    with he have "heap (fst (PostRefresh f s)) r = h r"
      by (simp add: PostRefresh_def)
    with ni have "heap (fst (PostRefresh f s)) r =
        (heap s r)\<lparr>inventory_name := n, inventory_id := i, job_status := job_status (heap s r)\<rparr>"
      by simp
    then show ?thesis by blast
  next
    case None
    with he have "heap (fst (PostRefresh f s)) r = forEach_SetStatus f ?rs h r"
      by (simp add: PostRefresh_def setJobStatus_def collection_def)
    moreover obtain j where "forEach_SetStatus f ?rs h r = (h r)\<lparr>job_status := j\<rparr>"
      using forEach_SetStatus_writes by blast
    ultimately have "heap (fst (PostRefresh f s)) r =
        (heap s r)\<lparr>inventory_name := n, inventory_id := i, job_status := j\<rparr>"
      using ni by simp
    then show ?thesis by blast
  qed
qed

lemma PostRefresh_hosts:
  "collection (hosts (fst (PostRefresh f s))) = collection (hosts s)"
  by (simp add: PostRefresh_def setJobStatus_def collection_def split: prod.splits option.splits)

lemma PostRefresh_scope:
  "fst (PostRefresh f s) =
     s\<lparr>heap := heap (fst (PostRefresh f s)), hosts := hosts (fst (PostRefresh f s))\<rparr>"
  by (simp add: PostRefresh_def setJobStatus_def split: prod.splits option.splits)

lemma PostRefresh_summary:
  "summary_inventory (heap (fst (PostRefresh f s)) r) = summary_inventory (heap s r)"
proof -
  obtain n i j where "heap (fst (PostRefresh f s)) r =
      (heap s r)\<lparr>inventory_name := n, inventory_id := i, job_status := j\<rparr>"
    using PostRefresh_writes by blast
  then show ?thesis by (simp add: summary_inventory_def)
qed

lemma PostRefresh_outside:
  "r \<notin> set (collection (hosts s)) \<Longrightarrow> heap (fst (PostRefresh f s)) r = heap s r"
  using map_derive_outside [of r "collection (hosts s)" "heap s"]
  by (auto simp: PostRefresh_def setJobStatus_def collection_def forEach_SetStatus_outside
      split: prod.splits option.splits)

lemma PostRefresh_derived:
  assumes "\<forall>r\<in>set (collection (hosts s)). summary_inventory (heap s r) \<noteq> None"
    and "r \<in> set (collection (hosts s))"
  shows "inventory_name (heap (fst (PostRefresh f s)) r) =
           map_option inv_name (summary_inventory (heap s r)) \<and>
         inventory_id (heap (fst (PostRefresh f s)) r) =
           map_option inv_id (summary_inventory (heap s r))"
  using map_derive_derives [OF assms]
  by (simp add: PostRefresh_completes [OF assms(1)] forEach_SetStatus_keeps)

subsection \<open>Who writes the edit marker\<close>

lemma run_append: "run f s (xs @ ys) = run f (run f s xs) ys"
  by (induction xs arbitrary: s) simp_all

lemma toggle_then_marker:
  "rowBeingEdited (fst (toggleHostEnabled_then d s)) = rowBeingEdited s"
  "listBeingEdited (fst (toggleHostEnabled_then d s)) = listBeingEdited s"
  "stateChangeListener (fst (toggleHostEnabled_then d s)) = stateChangeListener s"
  by (simp_all add: toggleHostEnabled_then_def Let_def split: sum.splits option.splits)

lemma settle_marker:
  "rowBeingEdited (fst (settle out s)) = rowBeingEdited s"
  "listBeingEdited (fst (settle out s)) = listBeingEdited s"
  "stateChangeListener (fst (settle out s)) = stateChangeListener s"
  by (cases out; simp add: toggle_then_marker)+

lemma PostRefresh_marker:
  "rowBeingEdited (fst (PostRefresh f s)) = rowBeingEdited s"
  "listBeingEdited (fst (PostRefresh f s)) = listBeingEdited s"
  "stateChangeListener (fst (PostRefresh f s)) = stateChangeListener s"
  by (simp_all add: PostRefresh_def setJobStatus_def split: prod.splits option.splits)

lemma dispatch_listener:
  "stateChangeListener (fst (dispatch f s e)) = (stateChangeListener s \<and> e \<noteq> Destroy)"
  by (cases e)
    (simp_all add: editHost_def toggleHostEnabled_def settle_marker PostRefresh_marker
      stateChangeSuccess_def destroy_def)

lemma dispatch_marker:
  "rowBeingEdited (fst (dispatch f s e)) =
     (case e of
        StateChangeSuccess n i \<Rightarrow>
          if stateChangeListener s
          then (if n = ''dashboardHosts.edit'' then i else None)
          else rowBeingEdited s
      | _ \<Rightarrow> rowBeingEdited s)"
  "listBeingEdited (fst (dispatch f s e)) =
     (case e of
        StateChangeSuccess n i \<Rightarrow>
          if stateChangeListener s
          then (if n = ''dashboardHosts.edit'' then Some ''hosts'' else None)
          else listBeingEdited s
      | _ \<Rightarrow> listBeingEdited s)"
  by (cases e;
      simp add: editHost_def toggleHostEnabled_def settle_marker PostRefresh_marker
        stateChangeSuccess_def destroy_def)+

lemma run_listener:
  "stateChangeListener (run f s es) = (stateChangeListener s \<and> Destroy \<notin> set es)"
  by (induction es arbitrary: s) (auto simp: dispatch_listener)

lemma marker_ok_dispatch:
  "carries_id e \<Longrightarrow> marker_ok s \<Longrightarrow> marker_ok (fst (dispatch f s e))"
  unfolding marker_ok_def dispatch_marker by (cases e) (auto split: option.splits)

lemma marker_ok_run: "list_all carries_id es \<Longrightarrow> marker_ok s \<Longrightarrow> marker_ok (run f s es)"
  by (induction es arbitrary: s) (simp_all add: marker_ok_dispatch)

subsection \<open>What construction leaves on the scope\<close>

lemma handed_keeps:
  "heap (handed c k s) = heap s"
  "hosts (handed c k s) = hosts s"
  "rowBeingEdited (handed c k s) = rowBeingEdited s"
  "listBeingEdited (handed c k s) = listBeingEdited s"
  "stateChangeListener (handed c k s) = stateChangeListener s"
  "calls (handed c k s) = calls s @ [k]"
  by (simp_all add: handed_def Let_def)

lemma init_assigned_fields:
  "hosts (init_assigned d s0) = Some (results (hosts_page d))"
  "host_total_rows (init_assigned d s0) = Some (int (length (results (hosts_page d))))"
  "rowBeingEdited (init_assigned d s0) = rowBeingEdited s0"
  "listBeingEdited (init_assigned d s0) = listBeingEdited s0"
  "stateChangeListener (init_assigned d s0) = stateChangeListener s0"
  by (simp_all add: init_assigned_def setJobStatus_def Let_def)

lemma controller_marker:
  "rowBeingEdited (controller d h m) =
     (if state_current_name d = ''dashboardHosts.edit'' then state_params_id d else None)"
  "listBeingEdited (controller d h m) =
     (if state_current_name d = ''dashboardHosts.edit'' then Some ''hosts'' else None)"
  by (simp_all add: controller_def init_def Let_def handed_keeps init_assigned_fields
      before_init_def new_scope_def)

lemma controller_listener: "stateChangeListener (controller d h m)"
  by (simp add: controller_def init_def Let_def handed_keeps init_assigned_fields
      before_init_def new_scope_def)

lemma controller_hosts: "hosts (controller d h m) = Some (results (hosts_page d))"
  by (simp add: controller_def init_def Let_def handed_keeps init_assigned_fields)

lemma controller_heap:
  "heap (controller d h m) = forEach_SetStatus (SetStatus d) (results (hosts_page d)) h"
  by (simp add: controller_def init_def Let_def handed_keeps)
     (simp add: init_assigned_def setJobStatus_def before_init_def new_scope_def
       collection_def Let_def)

lemma demo_scope_hosts: "hosts demo_scope = Some [0, 1]"
  by (simp add: demo_scope_def controller_hosts demo_injected_def)

lemma demo_scope_heap:
  "heap demo_scope 0 = host_one\<lparr>job_status := Some ''on''\<rparr>"
  "heap demo_scope (Suc 0) = host_two\<lparr>job_status := Some ''off''\<rparr>"
  by (simp_all add: demo_scope_def controller_heap demo_injected_def demo_heap_def
      apply_SetStatus_def demo_resolver_def host_one_def host_two_def)

lemma stale_scope_fields:
  "hosts stale_scope = Some [1]"
  "heap stale_scope = heap demo_scope"
  by (simp_all add: stale_scope_def)

lemma controller_calls:
  "calls (controller d h m) =
     [Generator_inject (DashboardHostsList d) ''edit'',
      SearchInit ''hosts'' (DashboardHostsList d) (defaultUrl d),
      PaginateInit (DashboardHostsList d) (defaultUrl d) 10,
      PageRangeSetup (count (hosts_page d)) (next_link (hosts_page d))
        (previous_link (hosts_page d)) (iterator (DashboardHostsList d)),
      Scope_search (iterator (DashboardHostsList d))]"
  by (simp add: controller_def init_def Let_def handed_keeps)
     (simp add: init_assigned_def setJobStatus_def before_init_def new_scope_def Let_def)

lemma dispatch_nav_tracking:
  "edit_tracking (fst (dispatch f s (StateChangeSuccess n p))) =
     (if stateChangeListener s
      then (if n = ''dashboardHosts.edit''
            then (case p of Some i \<Rightarrow> Editing ''hosts'' i | None \<Rightarrow> PartlySet)
            else NoneEditing)
      else edit_tracking s)"
  by (simp add: edit_tracking_def stateChangeSuccess_def split: option.splits)

lemma marker_ok_controller: "starts_with_id d \<Longrightarrow> marker_ok (controller d h m)"
  by (auto simp: marker_ok_def starts_with_id_def controller_marker)

lemma listener_off_run:
  "\<not> stateChangeListener s \<Longrightarrow>
     \<not> stateChangeListener (run f s es) \<and>
     rowBeingEdited (run f s es) = rowBeingEdited s \<and>
     listBeingEdited (run f s es) = listBeingEdited s"
proof (induction es arbitrary: s)
  case Nil
  then show ?case by simp
next
  case (Cons e es)
  let ?s = "fst (dispatch f s e)"
  have off: "\<not> stateChangeListener ?s"
    using Cons.prems by (simp add: dispatch_listener)
  have same: "rowBeingEdited ?s = rowBeingEdited s" "listBeingEdited ?s = listBeingEdited s"
    using Cons.prems by (simp_all add: dispatch_marker split: event.splits)
  from Cons.IH [OF off] same show ?case by simp
qed

section \<open>Properties\<close>

subsection \<open>Initialisation\<close>

text \<open>
  C2, as stated, fails: the one assignment the controller makes to the row count takes
  the length of the page, not the page's \<^verbatim>\<open>count\<close>. On the sample page of two results
  out of three, the scope the controller hands to its collaborators has
  \<^verbatim>\<open>host_total_rows\<close> 2.
\<close>

theorem init_total_rows_is_not_count:
  "host_total_rows (init_assigned demo_injected (before_init demo_heap ())) \<noteq>
     Some (count (hosts_page demo_injected))"
  by (simp add: init_assigned_fields demo_injected_def)

text \<open>
  C2, amended: the controller installs \<^verbatim>\<open>results\<close> as the snapshot and its own assignment
  sets \<^verbatim>\<open>host_total_rows\<close> to the number of results of the page; this is the scope it
  hands to its collaborators, whatever they are, none having been called before. The
  page's \<^verbatim>\<open>count\<close> is only passed on, with \<^verbatim>\<open>next\<close>, \<^verbatim>\<open>previous\<close> and the list's iterator,
  to \<^verbatim>\<open>PageRangeSetup\<close>, the fourth of the five calls made; the snapshot is still
  \<^verbatim>\<open>results\<close> when construction ends, and what the row count is by then is up to the
  collaborators.
\<close>

theorem init_installs_page:
  "hosts (init_assigned d (before_init h m)) = Some (results (hosts_page d)) \<and>
   host_total_rows (init_assigned d (before_init h m)) =
     Some (int (length (results (hosts_page d)))) \<and>
   calls (init_assigned d (before_init h m)) = [] \<and>
   hosts (controller d h m) = Some (results (hosts_page d)) \<and>
   calls (controller d h m) =
     [Generator_inject (DashboardHostsList d) ''edit'',
      SearchInit ''hosts'' (DashboardHostsList d) (defaultUrl d),
      PaginateInit (DashboardHostsList d) (defaultUrl d) 10,
      PageRangeSetup (count (hosts_page d)) (next_link (hosts_page d))
        (previous_link (hosts_page d)) (iterator (DashboardHostsList d)),
      Scope_search (iterator (DashboardHostsList d))]"
  by (simp add: init_assigned_fields controller_hosts controller_calls)
     (simp add: init_assigned_def setJobStatus_def before_init_def new_scope_def Let_def)

subsection \<open>Toggling a host\<close>

text \<open>
  C1: a response whose id is in no item of the current snapshot should leave the handler
  finishing quietly with the snapshot untouched. On the stale sample scope the response
  for host 1 finds index \<^verbatim>\<open>-1\<close>, and the assignment to \<^verbatim>\<open>$scope.hosts[-1].enabled\<close> raises
  a \<^verbatim>\<open>TypeError\<close>; the state is left as it was.
\<close>

theorem toggle_stale_id_raises:
  "settle (Resolved \<lparr>data_id = 1, data_enabled = False\<rparr>) stale_scope
     = (stale_scope, Some TypeError)"
proof -
  have "toggleHostEnabled_then \<lparr>data_id = 1, data_enabled = False\<rparr> stale_scope
      = (stale_scope, Some TypeError)"
    by (rule toggle_then_unknown_id)
      (simp add: stale_scope_fields collection_def demo_scope_heap host_two_def)
  then show ?thesis by simp
qed

text \<open>
  C3, as stated, fails: after a successful toggle the number of items whose flag equals
  the returned value need not be one. Disabling the first sample host leaves both hosts
  disabled, the second one having been so before.
\<close>

theorem toggle_success_not_exactly_one:
  "count_enabled False
     (fst (settle (Resolved \<lparr>data_id = 1, data_enabled = False\<rparr>)
        (toggleHostEnabled 0 demo_scope))) \<noteq> 1"
proof -
  let ?s = "toggleHostEnabled 0 demo_scope"
  have hs: "hosts ?s = Some [0, 1]" and hp: "heap ?s = heap demo_scope"
    by (simp_all add: toggleHostEnabled_def demo_scope_hosts)
  have found: "toggleHostEnabled_then \<lparr>data_id = 1, data_enabled = False\<rparr> ?s =
      (?s\<lparr>heap := (heap ?s)(0 := (heap ?s 0)\<lparr>enabled := False\<rparr>)\<rparr>, None)"
    by (simp add: toggleHostEnabled_then_def findIndex_def at_index_def collection_def hs hp
        demo_scope_heap host_one_def host_two_def)
  show ?thesis
    by (simp add: found count_enabled_def collection_def hs hp demo_scope_heap
        host_one_def host_two_def)
qed

text \<open>
  C3, amended: in a snapshot whose items have pairwise different ids, toggling an item
  of the snapshot and resolving the request with that item's id and the value \<open>v\<close>
  raises nothing and changes the store at that item only, where it overwrites \<^verbatim>\<open>enabled\<close>
  with \<open>v\<close> and no other field; every other object, the snapshot array and the rest of
  the scope stay as the call left them.
\<close>

theorem toggle_success_patches_matched_item:
  assumes "hosts s = Some rs" and "r \<in> set rs"
    and "distinct (map (\<lambda>x. host_id (heap s x)) rs)"
  shows "settle (Resolved \<lparr>data_id = host_id (heap s r), data_enabled = v\<rparr>) (toggleHostEnabled r s)
           = ((toggleHostEnabled r s)\<lparr>heap := (heap s)(r := (heap s r)\<lparr>enabled := v\<rparr>)\<rparr>, None)"
proof -
  let ?s = "toggleHostEnabled r s"
  have h: "heap ?s = heap s" and hs: "hosts ?s = Some rs"
    using assms(1) by (simp_all add: toggleHostEnabled_def)
  have "toggleHostEnabled_then \<lparr>data_id = host_id (heap s r), data_enabled = v\<rparr> ?s =
          (?s\<lparr>heap := (heap ?s)(r := (heap ?s r)\<lparr>enabled := data_enabled \<lparr>data_id = host_id (heap s r), data_enabled = v\<rparr>\<rparr>)\<rparr>, None)"
    by (rule toggle_then_found [OF hs assms(2)]) (simp_all add: h assms(3))
  then show ?thesis by (simp add: h)
qed

text \<open>The amended C3 on the sample scope: disabling the first host.\<close>

theorem toggle_success_patches_matched_item_witness:
  "hosts demo_scope = Some [0, 1] \<and>
   distinct (map (\<lambda>x. host_id (heap demo_scope x)) [0, 1]) \<and>
   settle (Resolved \<lparr>data_id = 1, data_enabled = False\<rparr>) (toggleHostEnabled 0 demo_scope) =
     ((toggleHostEnabled 0 demo_scope)
        \<lparr>heap := (heap demo_scope)(0 := (heap demo_scope 0)\<lparr>enabled := False\<rparr>)\<rparr>, None)"
proof -
  have a: "hosts demo_scope = Some [0, 1]" by (rule demo_scope_hosts)
  have b: "(0::nat) \<in> set [0, 1]" by simp
  have c: "distinct (map (\<lambda>x. host_id (heap demo_scope x)) [0, 1])"
    by (simp add: demo_scope_heap host_one_def host_two_def)
  have d: "host_id (heap demo_scope 0) = 1"
    by (simp add: demo_scope_heap host_one_def)
  from toggle_success_patches_matched_item [OF a b c, of False] a c show ?thesis
    unfolding d by simp
qed

text \<open>
  C7: when the request is rejected, no code of the controller runs. After the call and
  the rejection the store and the snapshot are what they were, so is every other
  property of the scope, and the only trace is the one request that was sent: nothing
  is sent again.
\<close>

theorem toggle_failure_changes_nothing:
  "snd (settle Rejected (toggleHostEnabled r s)) = None \<and>
   run f s [ToggleHostEnabled r, Settled Rejected] =
     s\<lparr>calls := calls s @ [SetHostStatus r (\<not> enabled (heap s r))]\<rparr> \<and>
   heap (run f s [ToggleHostEnabled r, Settled Rejected]) = heap s \<and>
   hosts (run f s [ToggleHostEnabled r, Settled Rejected]) = hosts s \<and>
   enabled (heap (run f s [ToggleHostEnabled r, Settled Rejected]) r) = enabled (heap s r)"
  by (simp add: toggleHostEnabled_def)

subsection \<open>Refreshing\<close>

text \<open>
  C4: in a snapshot whose items all carry \<^verbatim>\<open>summary_fields.inventory\<close>, the refresh
  handler raises nothing, and afterwards every item of the snapshot still carries its
  \<^verbatim>\<open>summary_fields.inventory\<close> and has that inventory's name and id as \<^verbatim>\<open>inventory_name\<close>
  and \<^verbatim>\<open>inventory_id\<close>. A second refresh raises nothing either and leaves both fields of
  every object as the first one set them.
\<close>

theorem PostRefresh_derives_inventory_fields:
  assumes "\<forall>r\<in>set (collection (hosts s)). summary_inventory (heap s r) \<noteq> None"
  shows "snd (PostRefresh f s) = None \<and>
         (\<forall>r\<in>set (collection (hosts (run f s [PostRefreshed]))).
            \<exists>i. summary_inventory (heap (run f s [PostRefreshed]) r) = Some i \<and>
                inventory_name (heap (run f s [PostRefreshed]) r) = Some (inv_name i) \<and>
                inventory_id (heap (run f s [PostRefreshed]) r) = Some (inv_id i)) \<and>
         snd (PostRefresh f (run f s [PostRefreshed])) = None \<and>
         (\<forall>r. inventory_name (heap (run f s [PostRefreshed, PostRefreshed]) r) =
                inventory_name (heap (run f s [PostRefreshed]) r) \<and>
              inventory_id (heap (run f s [PostRefreshed, PostRefreshed]) r) =
                inventory_id (heap (run f s [PostRefreshed]) r))"
proof -
  let ?s1 = "fst (PostRefresh f s)"
  let ?s2 = "fst (PostRefresh f ?s1)"
  have ok1: "snd (PostRefresh f s) = None"
    by (simp add: PostRefresh_completes [OF assms])
  have again: "\<forall>r\<in>set (collection (hosts ?s1)). summary_inventory (heap ?s1 r) \<noteq> None"
    using assms by (simp add: PostRefresh_hosts PostRefresh_summary)
  have once: "\<exists>i. summary_inventory (heap ?s1 r) = Some i \<and>
      inventory_name (heap ?s1 r) = Some (inv_name i) \<and>
      inventory_id (heap ?s1 r) = Some (inv_id i)"
    if "r \<in> set (collection (hosts ?s1))" for r
  proof -
    from again that obtain i where i: "summary_inventory (heap ?s1 r) = Some i" by auto
    from PostRefresh_derived [OF assms, of r f] that i show ?thesis
      by (simp add: PostRefresh_hosts PostRefresh_summary)
  qed
  have ok2: "snd (PostRefresh f ?s1) = None"
    by (simp add: PostRefresh_completes [OF again])
  have twice: "inventory_name (heap ?s2 r) = inventory_name (heap ?s1 r) \<and>
      inventory_id (heap ?s2 r) = inventory_id (heap ?s1 r)" for r
  proof (cases "r \<in> set (collection (hosts ?s1))")
    case True
    from PostRefresh_derived [OF again True, of f] once [OF True] show ?thesis by auto
  next
    case False
    then show ?thesis by (simp add: PostRefresh_outside)
  qed
  from ok1 once ok2 twice show ?thesis by simp
qed

text \<open>C4 on the sample scope, refreshed once and twice.\<close>

theorem PostRefresh_derives_inventory_fields_witness:
  "summary_inventory (heap demo_scope 0) \<noteq> None \<and>
   summary_inventory (heap demo_scope 1) \<noteq> None \<and>
   inventory_name (heap (run demo_resolver demo_scope [PostRefreshed]) 0) = Some ''Prod'' \<and>
   inventory_id (heap (run demo_resolver demo_scope [PostRefreshed]) 1) = Some 4 \<and>
   inventory_name (heap (run demo_resolver demo_scope [PostRefreshed, PostRefreshed]) 0) = Some ''Prod''"
proof -
  have hs: "collection (hosts demo_scope) = [0, 1]"
    by (simp add: demo_scope_hosts collection_def)
  have s0: "summary_inventory (heap demo_scope 0) = Some \<lparr>inv_name = ''Prod'', inv_id = 9\<rparr>"
    and s1: "summary_inventory (heap demo_scope (Suc 0)) = Some \<lparr>inv_name = ''Lab'', inv_id = 4\<rparr>"
    by (simp_all add: demo_scope_heap host_one_def host_two_def summary_inventory_def)
  have all: "\<forall>r\<in>set (collection (hosts demo_scope)). summary_inventory (heap demo_scope r) \<noteq> None"
    by (simp add: hs s0 s1)
  from PostRefresh_derives_inventory_fields [OF all, of demo_resolver] s0 s1 hs
  show ?thesis
    by (simp add: PostRefresh_hosts PostRefresh_summary)
qed

text \<open>
  C10: whether it raises or not, the refresh handler leaves the snapshot array with the
  same references in the same order, writes no property of the scope other than the
  array and the objects, and changes an object at most in \<^verbatim>\<open>inventory_name\<close>,
  \<^verbatim>\<open>inventory_id\<close> and the status metadata; in particular \<^verbatim>\<open>id\<close> and \<^verbatim>\<open>enabled\<close> stay.
\<close>

theorem PostRefresh_touches_derived_fields_only:
  "collection (hosts (fst (PostRefresh f s))) = collection (hosts s) \<and>
   fst (PostRefresh f s) =
     s\<lparr>heap := heap (fst (PostRefresh f s)), hosts := hosts (fst (PostRefresh f s))\<rparr> \<and>
   (\<forall>r. heap (fst (PostRefresh f s)) r =
      (heap s r)\<lparr>inventory_name := inventory_name (heap (fst (PostRefresh f s)) r),
                 inventory_id := inventory_id (heap (fst (PostRefresh f s)) r),
                 job_status := job_status (heap (fst (PostRefresh f s)) r)\<rparr> \<and>
      host_id (heap (fst (PostRefresh f s)) r) = host_id (heap s r) \<and>
      enabled (heap (fst (PostRefresh f s)) r) = enabled (heap s r))"
proof -
  have "heap (fst (PostRefresh f s)) r =
      (heap s r)\<lparr>inventory_name := inventory_name (heap (fst (PostRefresh f s)) r),
                 inventory_id := inventory_id (heap (fst (PostRefresh f s)) r),
                 job_status := job_status (heap (fst (PostRefresh f s)) r)\<rparr> \<and>
      host_id (heap (fst (PostRefresh f s)) r) = host_id (heap s r) \<and>
      enabled (heap (fst (PostRefresh f s)) r) = enabled (heap s r)" for r
  proof -
    obtain n i j where eq: "heap (fst (PostRefresh f s)) r =
        (heap s r)\<lparr>inventory_name := n, inventory_id := i, job_status := j\<rparr>"
      using PostRefresh_writes by blast
    show ?thesis unfolding eq by simp
  qed
  with PostRefresh_hosts [of f s] PostRefresh_scope [of f s] show ?thesis by blast
qed

subsection \<open>The edit marker\<close>

text \<open>
  C5, as stated, fails: the listener copies the destination's id as it comes. A
  navigation into the edit state whose parameters have no id leaves the list name set
  and the row id undefined on the sample scope.
\<close>

theorem edit_marker_partly_set_without_id:
  "listBeingEdited (run demo_resolver demo_scope [StateChangeSuccess ''dashboardHosts.edit'' None])
     = Some ''hosts'' \<and>
   rowBeingEdited (run demo_resolver demo_scope [StateChangeSuccess ''dashboardHosts.edit'' None])
     = None"
  using controller_listener [of demo_injected demo_heap "()"]
  by (simp add: demo_scope_def stateChangeSuccess_def)

text \<open>
  C5, amended: when every navigation into the edit state brings a row id, at
  construction and in every event, then after construction and any sequence of events
  row and list of the marker are either both missing or both present, the list being
  \<^verbatim>\<open>hosts\<close>; and the listener itself, run on any scope with a destination that has an
  id, leaves them both present with that id or both missing.
\<close>

theorem edit_marker_never_partly_set:
  assumes "starts_with_id d" and "list_all carries_id es"
  shows "((rowBeingEdited (run f (controller d h m) es) = None \<and>
           listBeingEdited (run f (controller d h m) es) = None) \<or>
          (\<exists>i. rowBeingEdited (run f (controller d h m) es) = Some i \<and>
               listBeingEdited (run f (controller d h m) es) = Some ''hosts'')) \<and>
         ((rowBeingEdited (stateChangeSuccess n (Some i) s) = None \<and>
           listBeingEdited (stateChangeSuccess n (Some i) s) = None) \<or>
          (rowBeingEdited (stateChangeSuccess n (Some i) s) = Some i \<and>
           listBeingEdited (stateChangeSuccess n (Some i) s) = Some ''hosts''))"
proof -
  have "marker_ok (run f (controller d h m) es)"
    using assms by (intro marker_ok_run marker_ok_controller)
  then have "(rowBeingEdited (run f (controller d h m) es) = None \<and>
     listBeingEdited (run f (controller d h m) es) = None) \<or>
    (\<exists>i. rowBeingEdited (run f (controller d h m) es) = Some i \<and>
         listBeingEdited (run f (controller d h m) es) = Some ''hosts'')"
    by (auto simp: marker_ok_def split: option.splits)
  then show ?thesis by (simp add: stateChangeSuccess_def)
qed

text \<open>
  The amended C5 on the sample scope: into the edit view of host 1, a toggle, and back
  to the list.
\<close>

theorem edit_marker_never_partly_set_witness:
  "starts_with_id demo_injected \<and>
   list_all carries_id
     [StateChangeSuccess ''dashboardHosts.edit'' (Some 1), ToggleHostEnabled 0,
      StateChangeSuccess ''dashboardHosts'' None] \<and>
   rowBeingEdited (run demo_resolver demo_scope
     [StateChangeSuccess ''dashboardHosts.edit'' (Some 1), ToggleHostEnabled 0,
      StateChangeSuccess ''dashboardHosts'' None]) = None \<and>
   listBeingEdited (run demo_resolver demo_scope
     [StateChangeSuccess ''dashboardHosts.edit'' (Some 1), ToggleHostEnabled 0,
      StateChangeSuccess ''dashboardHosts'' None]) = None \<and>
   rowBeingEdited (stateChangeSuccess ''dashboardHosts.edit'' (Some 1) demo_scope) = Some 1 \<and>
   listBeingEdited (stateChangeSuccess ''dashboardHosts.edit'' (Some 1) demo_scope) = Some ''hosts''"
proof -
  let ?es = "[StateChangeSuccess ''dashboardHosts.edit'' (Some 1), ToggleHostEnabled 0,
      StateChangeSuccess ''dashboardHosts'' None]"
  have a: "starts_with_id demo_injected"
    by (simp add: starts_with_id_def demo_injected_def)
  have b: "list_all carries_id ?es" by simp
  have l: "stateChangeListener demo_scope"
    unfolding demo_scope_def by (rule controller_listener)
  have r: "rowBeingEdited (run demo_resolver demo_scope ?es) = None"
    using l by (simp add: stateChangeSuccess_def toggleHostEnabled_def)
  from edit_marker_never_partly_set
    [OF a b, of demo_resolver demo_heap "()" "''dashboardHosts.edit''" 1 demo_scope]
  show ?thesis using a b r unfolding demo_scope_def [symmetric]
    by (simp add: stateChangeSuccess_def)
qed

text \<open>
  C6, as stated, fails: entering the edit state without an id gives neither \<open>Editing\<close>
  nor \<open>NoneEditing\<close>, at construction as well as on a later navigation.
\<close>

theorem edit_tracking_without_id:
  "edit_tracking (controller deep_link_injected demo_heap ()) = PartlySet \<and>
   edit_tracking
     (fst (dispatch demo_resolver demo_scope (StateChangeSuccess ''dashboardHosts.edit'' None)))
     = PartlySet"
  using controller_listener [of demo_injected demo_heap "()"]
  by (simp add: edit_tracking_def controller_marker deep_link_injected_def demo_injected_def
      demo_scope_def stateChangeSuccess_def)

text \<open>
  C6, amended: the transitions of the marker. The listener is registered from
  construction until \<^verbatim>\<open>$destroy\<close>. While it is, a \<^verbatim>\<open>$stateChangeSuccess\<close> with destination
  \<^verbatim>\<open>dashboardHosts.edit\<close> gives \<open>Editing\<close> with the list \<^verbatim>\<open>hosts\<close> and the destination's id
  when the destination has one, and the list name without a row id when it has none; any
  other destination gives \<open>NoneEditing\<close>; all this whatever the marker was. Construction
  sets the marker in the same way from the router's current parameters when the current
  state is the edit state, and leaves \<open>NoneEditing\<close> otherwise. No other event changes
  the marker.
\<close>

theorem edit_tracking_transitions:
  "stateChangeListener (run f (controller d h m) es) = (Destroy \<notin> set es) \<and>
   edit_tracking (fst (dispatch f (run f (controller d h m) es) (StateChangeSuccess n p))) =
     (if Destroy \<in> set es then edit_tracking (run f (controller d h m) es)
      else if n = ''dashboardHosts.edit''
      then (case p of Some i \<Rightarrow> Editing ''hosts'' i | None \<Rightarrow> PartlySet)
      else NoneEditing) \<and>
   edit_tracking (fst (dispatch f s (StateChangeSuccess n p))) =
     (if stateChangeListener s
      then (if n = ''dashboardHosts.edit''
            then (case p of Some i \<Rightarrow> Editing ''hosts'' i | None \<Rightarrow> PartlySet)
            else NoneEditing)
      else edit_tracking s) \<and>
   edit_tracking (fst (dispatch f s (EditHost i))) = edit_tracking s \<and>
   edit_tracking (fst (dispatch f s (ToggleHostEnabled r))) = edit_tracking s \<and>
   edit_tracking (fst (dispatch f s (Settled out))) = edit_tracking s \<and>
   edit_tracking (fst (dispatch f s PostRefreshed)) = edit_tracking s \<and>
   edit_tracking (fst (dispatch f s Destroy)) = edit_tracking s \<and>
   edit_tracking (controller d h m) =
     (if state_current_name d = ''dashboardHosts.edit''
      then (case state_params_id d of Some i \<Rightarrow> Editing ''hosts'' i | None \<Rightarrow> PartlySet)
      else NoneEditing)"
proof -
  have reg: "stateChangeListener (run f (controller d h m) es) = (Destroy \<notin> set es)"
    by (simp add: run_listener controller_listener)
  note nav = dispatch_nav_tracking
  have reach: "edit_tracking (fst (dispatch f (run f (controller d h m) es) (StateChangeSuccess n p))) =
     (if Destroy \<in> set es then edit_tracking (run f (controller d h m) es)
      else if n = ''dashboardHosts.edit''
      then (case p of Some i \<Rightarrow> Editing ''hosts'' i | None \<Rightarrow> PartlySet)
      else NoneEditing)"
    unfolding dispatch_nav_tracking reg by simp
  have other:
    "edit_tracking (fst (dispatch f s (EditHost i))) = edit_tracking s"
    "edit_tracking (fst (dispatch f s (ToggleHostEnabled r))) = edit_tracking s"
    "edit_tracking (fst (dispatch f s (Settled out))) = edit_tracking s"
    "edit_tracking (fst (dispatch f s PostRefreshed)) = edit_tracking s"
    "edit_tracking (fst (dispatch f s Destroy)) = edit_tracking s"
    by (simp_all add: edit_tracking_def editHost_def toggleHostEnabled_def settle_marker
        PostRefresh_marker destroy_def)
  have start: "edit_tracking (controller d h m) =
     (if state_current_name d = ''dashboardHosts.edit''
      then (case state_params_id d of Some i \<Rightarrow> Editing ''hosts'' i | None \<Rightarrow> PartlySet)
      else NoneEditing)"
    by (simp add: edit_tracking_def controller_marker split: option.splits)
  from reg reach nav [of f s n p] other start show ?thesis by simp
qed

text \<open>
  C8: once \<^verbatim>\<open>$destroy\<close> has been handled, whatever happened before and whatever happens
  afterwards, a \<^verbatim>\<open>$stateChangeSuccess\<close> changes nothing, and the marker is still the one
  the scope had when it was destroyed.
\<close>

theorem no_marker_change_after_destroy:
  "dispatch f (run f s (pre @ Destroy # mid)) (StateChangeSuccess n i) =
     (run f s (pre @ Destroy # mid), None) \<and>
   rowBeingEdited (run f s (pre @ Destroy # mid)) = rowBeingEdited (run f s pre) \<and>
   listBeingEdited (run f s (pre @ Destroy # mid)) = listBeingEdited (run f s pre)"
proof -
  let ?d = "destroy (run f s pre)"
  have r: "run f s (pre @ Destroy # mid) = run f ?d mid"
    by (simp add: run_append)
  have "\<not> stateChangeListener ?d" by (simp add: destroy_def)
  from listener_off_run [OF this, of f mid] show ?thesis
    unfolding r by (simp add: destroy_def)
qed

subsection \<open>Opening the edit view\<close>

text \<open>
  C9: \<^verbatim>\<open>editHost\<close> leaves the store, the snapshot, the marker, the row count, the page
  size, the search flag and every property owned by the collaborators as they are; it
  asks the router once for \<^verbatim>\<open>dashboardHosts.edit\<close> with the given id.
\<close>

theorem editHost_only_requests_navigation:
  "heap (editHost i s) = heap s \<and> hosts (editHost i s) = hosts s \<and>
   rowBeingEdited (editHost i s) = rowBeingEdited s \<and>
   listBeingEdited (editHost i s) = listBeingEdited s \<and>
   host_total_rows (editHost i s) = host_total_rows s \<and>
   hostPageSize (editHost i s) = hostPageSize s \<and>
   host_active_search (editHost i s) = host_active_search s \<and>
   hostLoading (editHost i s) = hostLoading s \<and>
   scope_list (editHost i s) = scope_list s \<and>
   stateChangeListener (editHost i s) = stateChangeListener s \<and>
   state.more (editHost i s) = state.more s \<and>
   calls (editHost i s) = calls s @ [State_go ''dashboardHosts.edit'' i]"
  by (simp add: editHost_def)

end
